theory Spec2Isabelle
  imports Main
begin

section \<open>JavaScript values and JSON documents\<close>

text \<open>
  The values the recorder handles. Numbers are the integers (timestamps, ids, counters;
  floating point is outside the model). An object carries the name of its constructor
  (read by the replacer as \<open>value.constructor.name\<close>) and its own enumerable fields in
  insertion order. A live Property object is a reference \<open>PropRef a\<close> to the address
  \<open>a\<close> of the heap, so that two references are the same object exactly when their
  addresses are equal.
\<close>

datatype jsval =
    Undefined
  | Null
  | Bool bool
  | Num int
  | Str string
  | Arr "jsval list"
  | Obj string "(string \<times> jsval) list"
  | PropRef nat

text \<open>
  A JSON text is represented by the document it denotes: \<open>JNum 2\<close> is the text \<open>2\<close>,
  \<open>JObj [(''cid'', JNum 5)]\<close> the text \<open>{"cid":5}\<close>. Every JSON text is a non-empty
  string, hence truthy.
\<close>

datatype json =
    JNull
  | JBool bool
  | JNum int
  | JStr string
  | JArr "json list"
  | JObj "(string \<times> json) list"

datatype error = TypeError | SyntaxError

text \<open>JavaScript's truthiness (\<open>ToBoolean\<close>), used by every \<open>value && ...\<close> test.\<close>

fun truthy :: "jsval \<Rightarrow> bool" where
  "truthy Undefined = False"
| "truthy Null = False"
| "truthy (Bool b) = b"
| "truthy (Num n) = (n \<noteq> 0)"
| "truthy (Str s) = (s \<noteq> [])"
| "truthy (Arr xs) = True"
| "truthy (Obj c fs) = True"
| "truthy (PropRef a) = True"

text \<open>The decimal rendering of an array index, the key under which an element is visited.\<close>

fun string_of_nat :: "nat \<Rightarrow> string" where
  "string_of_nat n =
     (if n < 10 then [char_of (48 + n)]
      else string_of_nat (n div 10) @ [char_of (48 + n mod 10)])"

declare string_of_nat.simps [simp del]


section \<open>Property objects\<close>

text \<open>
  Modelled from the spec: the Property class (AXON/Property) is not among the sources. The
  spec describes an observable property as "a single mutable value cell with change
  notification", "identified by an integer id" (the cid). A property is its optional cid,
  its value cell, the listeners linked to it and the events triggered on it. A listener
  linked by \<open>registerProperty\<close> is determined by the registry index it closes over, so
  \<open>observers\<close> lists those indices.
\<close>

record property =
  pcid :: "nat option"
  pvalue :: jsval
  observers :: "nat list"
  triggered :: "jsval list"

text \<open>
  Modelled from the spec: reading a field of a Property object, which has the data fields
  \<open>cid\<close> (when it was given one) and \<open>value\<close>.
\<close>

definition propField :: "property \<Rightarrow> string \<Rightarrow> jsval" where
  "propField p name =
     (if name = ''cid'' then (case pcid p of None \<Rightarrow> Undefined | Some c \<Rightarrow> Num (int c))
      else if name = ''value'' then pvalue p
      else Undefined)"

text \<open>
  Modelled from the spec: the own enumerable fields of a Property object, which
  \<open>JSON.stringify\<close> walks when the replacer leaves the object as it is.
\<close>

definition ownFields :: "property \<Rightarrow> (string \<times> jsval) list" where
  "ownFields p =
     (case pcid p of None \<Rightarrow> [] | Some c \<Rightarrow> [(''cid'', Num (int c))]) @ [(''value'', pvalue p)]"

text \<open>
  Modelled from the spec: \<open>property.lazyLink(listener)\<close> "subscribes a listener that fires
  on every subsequent change", not on the value the property holds already.
\<close>

definition lazyLink :: "property \<Rightarrow> nat \<Rightarrow> property" where
  "lazyLink p idx = p\<lparr>observers := observers p @ [idx]\<rparr>"

text \<open>
  Modelled from the spec: the assignment \<open>property.value = v\<close> of the replay loop, which
  the spec describes as "bypassing normal change notification": a plain write to the value
  cell that calls no listener.
\<close>

definition assignValue :: "property \<Rightarrow> jsval \<Rightarrow> property" where
  "assignValue p v = p\<lparr>pvalue := v\<rparr>"

text \<open>
  Modelled from the spec: \<open>property.trigger(event)\<close>, "invoke the named event/trigger on
  the property". The property keeps the events it received.
\<close>

definition trigger :: "property \<Rightarrow> jsval \<Rightarrow> property" where
  "trigger p ev = p\<lparr>triggered := triggered p @ [ev]\<rparr>"

text \<open>
  Field access \<open>value.name\<close> on any value. Primitives and arrays have none of the fields
  the recorder reads (\<open>cid\<close>, \<open>jsonClass\<close>, \<open>x\<close>, \<open>y\<close>); a reference is followed into the
  heap.
\<close>

fun getField :: "property list \<Rightarrow> jsval \<Rightarrow> string \<Rightarrow> jsval" where
  "getField h (Obj c fs) name = (case map_of fs name of None \<Rightarrow> Undefined | Some x \<Rightarrow> x)"
| "getField h (PropRef a) name = (if a < length h then propField (h ! a) name else Undefined)"
| "getField h v name = Undefined"

fun constructorName :: "jsval \<Rightarrow> string" where
  "constructorName (Bool b) = ''Boolean''"
| "constructorName (Num n) = ''Number''"
| "constructorName (Str s) = ''String''"
| "constructorName (Arr xs) = ''Array''"
| "constructorName (Obj c fs) = c"
| "constructorName (PropRef a) = ''Property''"
| "constructorName v = []"


section \<open>The replacer and JSON.stringify\<close>

text \<open>
  \<open>Log.replacer\<close>: a value with a truthy \<open>cid\<close> becomes the typed reference
  \<open>{jsonClass: 'Property', cid: value.cid}\<close>, a \<open>Vector2\<close> becomes
  \<open>{x, y, jsonClass: 'Vector2'}\<close>, anything else is returned as it is. The key is not
  read.
\<close>

definition replacer :: "property list \<Rightarrow> string \<Rightarrow> jsval \<Rightarrow> jsval" where
  "replacer h key v =
     (if truthy v \<and> truthy (getField h v ''cid'') then
        Obj ''Object'' [(''jsonClass'', Str ''Property''), (''cid'', getField h v ''cid'')]
      else if truthy v \<and> constructorName v = ''Vector2'' then
        Obj ''Object'' [(''x'', getField h v ''x''), (''y'', getField h v ''y''),
                        (''jsonClass'', Str ''Vector2'')]
      else v)"

text \<open>
  \<open>JSON.stringify(value, replacer)\<close> as ECMAScript defines it: the replacer is called on
  every value before it is serialised, then on each member of what it returned. An
  undefined result is no text at all (\<open>None\<close>); inside an array it is written \<open>null\<close>,
  inside an object the member is left out. \<open>st\<close> is the stack of the objects being
  serialised: meeting one of them again is a cyclic structure, a TypeError. An address
  outside the heap is no object of the program; the model raises a TypeError there too.
  \<open>weight\<close> and \<open>unvisited\<close> measure the recursion: a call either follows a reference
  that is not on the stack, or descends into a value of smaller weight.
\<close>

fun weight :: "jsval \<Rightarrow> nat" where
  "weight (Arr xs) = 5 + sum_list (map weight xs)"
| "weight (Obj c fs) = 5 + sum_list (map (\<lambda>f. weight (snd f)) fs)"
| "weight (PropRef a) = 5"
| "weight v = 1"

definition unvisited :: "property list \<Rightarrow> nat list \<Rightarrow> nat" where
  "unvisited h st = card ({..<length h} - set st)"

function stringify :: "property list \<Rightarrow> nat list \<Rightarrow> string \<Rightarrow> jsval \<Rightarrow> error + json option"
  and stringify_elems :: "property list \<Rightarrow> nat list \<Rightarrow> nat \<Rightarrow> jsval list \<Rightarrow> error + json list"
  and stringify_members ::
    "property list \<Rightarrow> nat list \<Rightarrow> (string \<times> jsval) list \<Rightarrow> error + (string \<times> json) list"
where
  "stringify h st key v =
     (case replacer h key v of
        Undefined \<Rightarrow> Inr None
      | Null \<Rightarrow> Inr (Some JNull)
      | Bool b \<Rightarrow> Inr (Some (JBool b))
      | Num n \<Rightarrow> Inr (Some (JNum n))
      | Str s \<Rightarrow> Inr (Some (JStr s))
      | Arr xs \<Rightarrow>
          (case stringify_elems h st 0 xs of
             Inl e \<Rightarrow> Inl e
           | Inr js \<Rightarrow> Inr (Some (JArr js)))
      | Obj c fs \<Rightarrow>
          (case stringify_members h st fs of
             Inl e \<Rightarrow> Inl e
           | Inr ms \<Rightarrow> Inr (Some (JObj ms)))
      | PropRef a \<Rightarrow>
          (if a \<in> set st \<or> \<not> a < length h then Inl TypeError
           else (case stringify_members h (a # st) (ownFields (h ! a)) of
                   Inl e \<Rightarrow> Inl e
                 | Inr ms \<Rightarrow> Inr (Some (JObj ms)))))"
| "stringify_elems h st i [] = Inr []"
| "stringify_elems h st i (x # xs) =
     (case stringify h st (string_of_nat i) x of
        Inl e \<Rightarrow> Inl e
      | Inr r \<Rightarrow>
          (case stringify_elems h st (Suc i) xs of
             Inl e \<Rightarrow> Inl e
           | Inr js \<Rightarrow> Inr ((case r of None \<Rightarrow> JNull | Some j \<Rightarrow> j) # js)))"
| "stringify_members h st [] = Inr []"
| "stringify_members h st (f # fs) =
     (case stringify h st (fst f) (snd f) of
        Inl e \<Rightarrow> Inl e
      | Inr r \<Rightarrow>
          (case stringify_members h st fs of
             Inl e \<Rightarrow> Inl e
           | Inr ms \<Rightarrow> Inr ((case r of None \<Rightarrow> [] | Some j \<Rightarrow> [(fst f, j)]) @ ms)))"
  by pat_completeness auto

lemma weight_pos: "0 < weight v"
  by (cases v) auto

lemma map_of_weight:
  "map_of fs k = Some x \<Longrightarrow> weight x \<le> sum_list (map (\<lambda>f. weight (snd f)) fs)"
  by (induction fs) (auto split: if_splits)

lemma map_of_weight2:
  "map_of fs k = Some x \<Longrightarrow> map_of fs k' = Some y \<Longrightarrow> k \<noteq> k' \<Longrightarrow>
   weight x + weight y \<le> sum_list (map (\<lambda>f. weight (snd f)) fs)"
proof (induction fs)
  case Nil
  then show ?case by simp
next
  case (Cons f fs)
  show ?case
  proof (cases "fst f = k")
    case True
    with Cons.prems have "x = snd f" "map_of fs k' = Some y" by (auto split: if_splits)
    with map_of_weight [of fs k' y] show ?thesis by simp
  next
    case False
    show ?thesis
    proof (cases "fst f = k'")
      case True
      with Cons.prems False have "y = snd f" "map_of fs k = Some x" by (auto split: if_splits)
      with map_of_weight [of fs k x] show ?thesis by simp
    next
      case F2: False
      with Cons.prems False have "map_of fs k = Some x" "map_of fs k' = Some y"
        by (auto split: if_splits)
      with Cons.IH Cons.prems(3) show ?thesis by simp
    qed
  qed
qed

lemma getField_weight1:
  "weight (getField h (Obj c fs) k) \<le> Suc (sum_list (map (\<lambda>f. weight (snd f)) fs))"
  using map_of_weight [of fs k] by (auto split: option.splits)

lemma getField_weight2:
  assumes "k \<noteq> k'"
  shows "weight (getField h (Obj c fs) k) + weight (getField h (Obj c fs) k')
     \<le> 2 + sum_list (map (\<lambda>f. weight (snd f)) fs)"
proof (cases "map_of fs k")
  case None
  with getField_weight1 [of h c fs k'] show ?thesis by simp
next
  case (Some x)
  show ?thesis
  proof (cases "map_of fs k'")
    case None
    with getField_weight1 [of h c fs k] show ?thesis by simp
  next
    case (Some y)
    with \<open>map_of fs k = Some x\<close> map_of_weight2 [of fs k x k' y] assms
    show ?thesis by simp
  qed
qed

lemma getField_PropRef_cid_weight: "weight (getField h (PropRef a) ''cid'') = 1"
  by (auto simp: propField_def split: option.splits)

lemma replacer_Arr: "replacer h key v = Arr xs \<Longrightarrow> v = Arr xs"
  by (auto simp: replacer_def split: if_splits)

lemma replacer_Obj_weight:
  assumes "replacer h key v = Obj c fs"
  shows "Suc (sum_list (map (\<lambda>f. weight (snd f)) fs)) < weight v"
proof (cases "truthy v \<and> truthy (getField h v ''cid'')")
  case True
  then have fs: "fs = [(''jsonClass'', Str ''Property''), (''cid'', getField h v ''cid'')]"
    using assms by (simp add: replacer_def)
  show ?thesis
  proof (cases v)
    case (Obj c' fs')
    with fs getField_weight1 [of h c' fs' "''cid''"] show ?thesis by simp
  next
    case (PropRef a)
    with fs getField_PropRef_cid_weight [of h a] show ?thesis by simp
  qed (use True in simp_all)
next
  case False
  show ?thesis
  proof (cases "truthy v \<and> constructorName v = ''Vector2''")
    case True
    with False have fs: "fs = [(''x'', getField h v ''x''), (''y'', getField h v ''y''),
                        (''jsonClass'', Str ''Vector2'')]"
      using assms by (simp add: replacer_def)
    from True obtain fs' where v: "v = Obj ''Vector2'' fs'"
      by (cases v) auto
    have "weight (getField h v ''x'') + weight (getField h v ''y'')
          \<le> 2 + sum_list (map (\<lambda>f. weight (snd f)) fs')"
      unfolding v by (rule getField_weight2) simp
    with fs v show ?thesis by simp
  next
    case F2: False
    with False assms have "v = Obj c fs" by (auto simp: replacer_def split: if_splits)
    then show ?thesis by simp
  qed
qed

lemma unvisited_push:
  "a \<notin> set st \<Longrightarrow> a < length h \<Longrightarrow> unvisited h (a # st) < unvisited h st"
proof -
  assume a: "a \<notin> set st" "a < length h"
  have "{..<length h} - set (a # st) \<subset> {..<length h} - set st"
    using a by auto
  then show ?thesis
    unfolding unvisited_def by (intro psubset_card_mono) auto
qed

termination stringify
  apply (relation "inv_image (less_than <*lex*> less_than)
      (\<lambda>x. case x of
          Inl (h, st, key, v) \<Rightarrow> (unvisited h st, weight v)
        | Inr (Inl (h, st, i, xs)) \<Rightarrow> (unvisited h st, Suc (sum_list (map weight xs)))
        | Inr (Inr (h, st, fs)) \<Rightarrow>
            (unvisited h st, Suc (sum_list (map (\<lambda>f. weight (snd f)) fs))))")
  apply simp_all
  subgoal by (intro wf_inv_image wf_lex_prod wf_less_than)
  subgoal by (drule replacer_Arr) simp
  subgoal by (rule replacer_Obj_weight)
  subgoal by (rule disjI1) (rule unvisited_push, simp_all)
  subgoal by (rule weight_pos)
  subgoal for h st f fs by (cases f) simp
  subgoal by (rule weight_pos)
  done


section \<open>The reviver and JSON.parse\<close>

text \<open>
  \<open>log.properties[key]\<close> for a key read from a JSON document: a number, or the decimal
  string of one, below the length of the registry selects the registered property; every
  other key of the documents considered here selects nothing.
\<close>

definition subscript :: "nat list \<Rightarrow> jsval \<Rightarrow> jsval" where
  "subscript props k =
     (case k of
        Num n \<Rightarrow> (if 0 \<le> n \<and> nat n < length props then PropRef (props ! nat n) else Undefined)
      | Str s \<Rightarrow> (case find (\<lambda>n. string_of_nat n = s) [0..<length props] of
                    Some n \<Rightarrow> PropRef (props ! n)
                  | None \<Rightarrow> Undefined)
      | _ \<Rightarrow> Undefined)"

text \<open>
  \<open>Log.reviver\<close>: a typed Property reference is replaced by the live property of the
  registry, a typed Vector2 by a plain \<open>{x, y}\<close>, anything else is returned as it is.
\<close>

definition reviver :: "property list \<Rightarrow> nat list \<Rightarrow> string \<Rightarrow> jsval \<Rightarrow> jsval" where
  "reviver h props key v =
     (if truthy v \<and> truthy (getField h v ''jsonClass'')
         \<and> getField h v ''jsonClass'' = Str ''Property'' then
        subscript props (getField h v ''cid'')
      else if truthy v \<and> truthy (getField h v ''jsonClass'')
         \<and> getField h v ''jsonClass'' = Str ''Vector2'' then
        Obj ''Object'' [(''x'', getField h v ''x''), (''y'', getField h v ''y'')]
      else v)"

text \<open>
  \<open>JSON.parse(text, reviver)\<close> as ECMAScript defines it: the document is rebuilt bottom
  up, the reviver is called on every value after its members were revived, and a member
  revived to undefined is deleted from its object.
\<close>

fun internalize :: "property list \<Rightarrow> nat list \<Rightarrow> string \<Rightarrow> json \<Rightarrow> jsval"
  and internalize_elems :: "property list \<Rightarrow> nat list \<Rightarrow> nat \<Rightarrow> json list \<Rightarrow> jsval list"
  and internalize_members ::
    "property list \<Rightarrow> nat list \<Rightarrow> (string \<times> json) list \<Rightarrow> (string \<times> jsval) list"
where
  "internalize h props key JNull = reviver h props key Null"
| "internalize h props key (JBool b) = reviver h props key (Bool b)"
| "internalize h props key (JNum n) = reviver h props key (Num n)"
| "internalize h props key (JStr s) = reviver h props key (Str s)"
| "internalize h props key (JArr js) = reviver h props key (Arr (internalize_elems h props 0 js))"
| "internalize h props key (JObj ms) =
     reviver h props key (Obj ''Object'' (internalize_members h props ms))"
| "internalize_elems h props i [] = []"
| "internalize_elems h props i (j # js) =
     internalize h props (string_of_nat i) j # internalize_elems h props (Suc i) js"
| "internalize_members h props [] = []"
| "internalize_members h props (m # ms) =
     (case internalize h props (fst m) (snd m) of
        Undefined \<Rightarrow> internalize_members h props ms
      | x \<Rightarrow> (fst m, x) # internalize_members h props ms)"


section \<open>The recorder\<close>

text \<open>
  A log entry. The recorder writes the registry id under \<open>index\<close>; the replay loop reads
  \<open>cid\<close> and \<open>collectionCid\<close>. A field that is absent (undefined) is \<open>None\<close>. \<open>evalue\<close> is
  the \<open>value\<close> field: the JSON text of the new value, absent when \<open>JSON.stringify\<close>
  returned undefined. \<open>etype\<close> is the \<open>type\<close> field.
\<close>

record entry =
  time :: int
  etype :: string
  index :: "nat option"
  cid :: "nat option"
  action :: string
  evalue :: "json option"
  event :: jsval
  collectionCid :: "nat option"

text \<open>
  Modelled from the spec: the collection class is not among the sources. The spec names its
  four operations (add, remove, reset, sort); a collection object is represented by the
  calls it has received, in order.
\<close>

datatype cop = Add jsval | Remove jsval | Reset | Sort

text \<open>What \<open>console.log('missing value for index: ', logIndex, entry)\<close> prints.\<close>

datatype diag = MissingValue nat entry

text \<open>
  The recorder object \<open>axon.log\<close> (the fields \<open>enabled\<close>, \<open>properties\<close>, \<open>collections\<close>,
  \<open>propertySets\<close>, \<open>entries\<close>, and \<open>collection\<close>, which only \<open>clear\<close> creates), together
  with the objects it refers to: the Property objects (\<open>heap\<close>) and the collections
  (\<open>colls\<close>), both by address, and the console. The registries hold addresses.
\<close>

record state =
  heap :: "property list"
  colls :: "cop list list"
  enabled :: bool
  properties :: "nat list"
  collections :: "nat list"
  propertySets :: "nat list"
  entries :: "entry list"
  collection :: "nat list option"
  console :: "diag list"

text \<open>The constructor: empty registries and an empty log.\<close>

definition Log :: "property list \<Rightarrow> cop list list \<Rightarrow> bool \<Rightarrow> state" where
  "Log h cs en =
     \<lparr>heap = h, colls = cs, enabled = en, properties = [], collections = [],
      propertySets = [], entries = [], collection = None, console = []\<rparr>"

definition JSON_stringify :: "state \<Rightarrow> jsval \<Rightarrow> error + json option" where
  "JSON_stringify s v = stringify (heap s) [] [] v"

text \<open>\<open>JSON.parse(undefined)\<close> parses the string \<open>undefined\<close>: a SyntaxError.\<close>

definition JSON_parse :: "state \<Rightarrow> json option \<Rightarrow> error + jsval" where
  "JSON_parse s txt =
     (case txt of
        None \<Rightarrow> Inl SyntaxError
      | Some j \<Rightarrow> Inr (internalize (heap s) (properties s) [] j))"

text \<open>
  The listener that \<open>registerProperty\<close> links, closed over \<open>index\<close>: it appends one
  change entry, stamped with \<open>Date.now()\<close> (the argument \<open>now\<close>).
\<close>

definition listener :: "nat \<Rightarrow> state \<Rightarrow> int \<Rightarrow> jsval \<Rightarrow> (error + unit) \<times> state" where
  "listener idx s now v =
     (case JSON_stringify s v of
        Inl e \<Rightarrow> (Inl e, s)
      | Inr txt \<Rightarrow>
          (Inr (),
           s\<lparr>entries := entries s @
                [\<lparr>time = now, etype = ''property'', index = Some idx, cid = None,
                  action = ''change'', evalue = txt, event = Undefined,
                  collectionCid = None\<rparr>]\<rparr>))"

definition registerProperty :: "state \<Rightarrow> nat \<Rightarrow> state" where
  "registerProperty s a =
     (if \<not> enabled s then s
      else
        let idx = length (properties s)
        in s\<lparr>properties := properties s @ [a],
             heap := (heap s)[a := lazyLink (heap s ! a) idx]\<rparr>)"

text \<open>
  Modelled from the spec: setting a property (\<open>property.set(v)\<close>) outside replay. "Whenever
  an observed value changes" each linked listener is called with the new value, in the
  order of linking.
\<close>

fun notify :: "state \<Rightarrow> int \<Rightarrow> jsval \<Rightarrow> nat list \<Rightarrow> (error + unit) \<times> state" where
  "notify s now v [] = (Inr (), s)"
| "notify s now v (idx # rest) =
     (case listener idx s now v of
        (Inl e, s') \<Rightarrow> (Inl e, s')
      | (Inr u, s') \<Rightarrow> notify s' now v rest)"

definition Property_set :: "state \<Rightarrow> int \<Rightarrow> nat \<Rightarrow> jsval \<Rightarrow> (error + unit) \<times> state" where
  "Property_set s now a v =
     (if \<not> a < length (heap s) then (Inl TypeError, s)
      else if pvalue (heap s ! a) = v then (Inr (), s)
      else notify (s\<lparr>heap := (heap s)[a := (heap s ! a)\<lparr>pvalue := v\<rparr>]\<rparr>) now v
             (observers (heap s ! a)))"

definition clear :: "state \<Rightarrow> state" where
  "clear s = s\<lparr>properties := [], collection := Some [], propertySets := []\<rparr>"


section \<open>Replay\<close>

text \<open>
  \<open>array[i]\<close> for a registry: undefined (\<open>None\<close>) when the index is undefined or out of
  range. \<open>propertyAt\<close> and \<open>collectionAt\<close> give the object a method is called on; calling
  a method on undefined is a TypeError.
\<close>

definition arrayAt :: "nat list \<Rightarrow> nat option \<Rightarrow> nat option" where
  "arrayAt xs i =
     (case i of None \<Rightarrow> None | Some n \<Rightarrow> if n < length xs then Some (xs ! n) else None)"

definition propertyAt :: "state \<Rightarrow> nat option \<Rightarrow> nat option" where
  "propertyAt s i =
     (case arrayAt (properties s) i of
        None \<Rightarrow> None
      | Some a \<Rightarrow> if a < length (heap s) then Some a else None)"

definition collectionAt :: "state \<Rightarrow> nat option \<Rightarrow> nat option" where
  "collectionAt s i =
     (case arrayAt (collections s) i of
        None \<Rightarrow> None
      | Some c \<Rightarrow> if c < length (colls s) then Some c else None)"

definition propertyArg :: "state \<Rightarrow> nat option \<Rightarrow> jsval" where
  "propertyArg s i =
     (case arrayAt (properties s) i of None \<Rightarrow> Undefined | Some a \<Rightarrow> PropRef a)"

text \<open>
  Modelled from the spec: calling one of the four operations on the collection at address
  \<open>c\<close>.
\<close>

definition call :: "state \<Rightarrow> nat \<Rightarrow> cop \<Rightarrow> state" where
  "call s c m = s\<lparr>colls := (colls s)[c := colls s ! c @ [m]]\<rparr>"

text \<open>
  The body of the replay loop for one entry whose time has come: the chain of tests on
  \<open>entry.action\<close>.
\<close>

definition applyEntry :: "state \<Rightarrow> nat \<Rightarrow> entry \<Rightarrow> (error + unit) \<times> state" where
  "applyEntry s logIndex e =
     (if action e = ''change'' then
        (if evalue e \<noteq> None then
           (case propertyAt s (cid e) of
              None \<Rightarrow> (Inl TypeError, s)
            | Some a \<Rightarrow>
                (case JSON_parse s (evalue e) of
                   Inl err \<Rightarrow> (Inl err, s)
                 | Inr v \<Rightarrow> (Inr (), s\<lparr>heap := (heap s)[a := assignValue (heap s ! a) v]\<rparr>)))
         else (Inr (), s\<lparr>console := console s @ [MissingValue logIndex e]\<rparr>))
      else if action e = ''trigger'' then
        (case propertyAt s (cid e) of
           None \<Rightarrow> (Inl TypeError, s)
         | Some a \<Rightarrow> (Inr (), s\<lparr>heap := (heap s)[a := trigger (heap s ! a) (event e)]\<rparr>))
      else if action e = ''add'' then
        (case collectionAt s (collectionCid e) of
           None \<Rightarrow> (Inl TypeError, s)
         | Some c \<Rightarrow> (Inr (), call s c (Add (propertyArg s (cid e)))))
      else if action e = ''remove'' then
        (case collectionAt s (collectionCid e) of
           None \<Rightarrow> (Inl TypeError, s)
         | Some c \<Rightarrow> (Inr (), call s c (Remove (propertyArg s (cid e)))))
      else if action e = ''reset'' then
        (case collectionAt s (collectionCid e) of
           None \<Rightarrow> (Inl TypeError, s)
         | Some c \<Rightarrow> (Inr (), call s c Reset))
      else if action e = ''sort'' then
        (case collectionAt s (collectionCid e) of
           None \<Rightarrow> (Inl TypeError, s)
         | Some c \<Rightarrow> (Inr (), call s c Sort))
      else (Inr (), s))"

text \<open>
  \<open>Log.prototype.stepUntil\<close>. An exception ends the call with the state as it was when the
  exception was raised.
\<close>

function stepUntil :: "state \<Rightarrow> entry list \<Rightarrow> int \<Rightarrow> nat \<Rightarrow> (error + nat) \<times> state" where
  "stepUntil s logArray playbackTime logIndex =
     (if logIndex < length logArray then
        (if time (logArray ! logIndex) \<le> playbackTime then
           (case applyEntry s logIndex (logArray ! logIndex) of
              (Inl err, s') \<Rightarrow> (Inl err, s')
            | (Inr u, s') \<Rightarrow> stepUntil s' logArray playbackTime (Suc logIndex))
         else (Inr logIndex, s))
      else (Inr logIndex, s))"
  by pat_completeness auto
termination
  by (relation "measure (\<lambda>(s, logArray, playbackTime, logIndex). length logArray - logIndex)")
    auto

declare stepUntil.simps [simp del]

text \<open>Encoding a value with the replacer and decoding the text with the reviver.\<close>

definition roundTrip :: "state \<Rightarrow> jsval \<Rightarrow> error + jsval" where
  "roundTrip s v =
     (case JSON_stringify s v of
        Inl e \<Rightarrow> Inl e
      | Inr txt \<Rightarrow> JSON_parse s txt)"

text \<open>
  The entries of a list applied one after the other, numbered from \<open>i\<close>, up to the first
  one that raises: what the loop of \<open>stepUntil\<close> is compared with.
\<close>

fun applyEntries :: "state \<Rightarrow> nat \<Rightarrow> entry list \<Rightarrow> (error + nat) \<times> state" where
  "applyEntries s i [] = (Inr i, s)"
| "applyEntries s i (e # es) =
     (case applyEntry s i e of
        (Inl err, s') \<Rightarrow> (Inl err, s')
      | (Inr u, s') \<Rightarrow> applyEntries s' (Suc i) es)"

text \<open>
  An entry is applicable in a state when the object the loop body calls a method on, or
  assigns to, is there: the property named by \<open>cid\<close> for a change with a value and for a
  trigger, the collection named by \<open>collectionCid\<close> for add, remove, reset and sort. The
  other entries are always applicable.
\<close>

definition applicable :: "state \<Rightarrow> entry \<Rightarrow> bool" where
  "applicable s e =
     (if action e = ''change'' then evalue e = None \<or> propertyAt s (cid e) \<noteq> None
      else if action e = ''trigger'' then propertyAt s (cid e) \<noteq> None
      else if action e = ''add'' \<or> action e = ''remove'' \<or> action e = ''reset''
              \<or> action e = ''sort''
        then collectionAt s (collectionCid e) \<noteq> None
      else True)"


section \<open>NumberPropertyIO\<close>

text \<open>
  A state object, and a NumberProperty as the adapter reads it: a JavaScript object as a
  map from field names to values. Reading a field that is absent gives undefined; the
  assignment \<open>obj.name = v\<close> creates or overwrites the field.
\<close>

type_synonym jsobject = "string \<Rightarrow> jsval option"

definition readField :: "jsobject \<Rightarrow> string \<Rightarrow> jsval" where
  "readField obj name = (case obj name of None \<Rightarrow> Undefined | Some v \<Rightarrow> v)"

text \<open>
  \<open>NumberPropertyIO.fromStateObject\<close> and \<open>NumberPropertyIO.toStateObject\<close>. The parent
  adapter \<open>PropertyIOImpl = PropertyIO(NumberIO)\<close> (AXON/PropertyIO) is not among the
  sources: its two functions are parameters.
\<close>

definition fromStateObject :: "(jsobject \<Rightarrow> jsobject) \<Rightarrow> jsobject \<Rightarrow> jsobject" where
  "fromStateObject PropertyIOImpl_fromStateObject stateObject =
     (let fromParentStateObject = PropertyIOImpl_fromStateObject stateObject;
          fromParentStateObject =
            fromParentStateObject(''valueType'' \<mapsto> readField stateObject ''valueType'');
          fromParentStateObject =
            fromParentStateObject(''units'' \<mapsto> readField stateObject ''units'');
          fromParentStateObject =
            fromParentStateObject(''range'' \<mapsto> readField stateObject ''range'')
      in fromParentStateObject)"

definition toStateObject :: "(jsobject \<Rightarrow> jsobject) \<Rightarrow> jsobject \<Rightarrow> jsobject" where
  "toStateObject PropertyIOImpl_toStateObject numberProperty =
     (let parentStateObject = PropertyIOImpl_toStateObject numberProperty;
          parentStateObject =
            parentStateObject(''valueType'' \<mapsto> readField numberProperty ''valueType'');
          parentStateObject =
            parentStateObject(''units'' \<mapsto> readField numberProperty ''units'');
          parentStateObject =
            parentStateObject(''range'' \<mapsto> readField numberProperty ''range'')
      in parentStateObject)"


section \<open>Scenarios\<close>

text \<open>
  The recorder of the scenario: recording enabled, one property \<open>P\<close> with value 1 at
  address 0, registered at id 0 (\<open>recorder1\<close>); then \<open>P\<close> set to 2 at time 10
  (\<open>recorder2\<close>) and to 3 at time 20 (\<open>recorder3\<close>). \<open>scenarioLog\<close> is the log the
  scenario expects, \<open>replayLog\<close> the same entries carrying the id under \<open>cid\<close> as well.
\<close>

definition P_initial :: property where
  "P_initial = \<lparr>pcid = None, pvalue = Num 1, observers = [], triggered = []\<rparr>"

definition recorder1 :: state where
  "recorder1 = registerProperty (Log [P_initial] [] True) 0"

definition recorder2 :: state where
  "recorder2 = snd (Property_set recorder1 10 0 (Num 2))"

definition recorder3 :: state where
  "recorder3 = snd (Property_set recorder2 20 0 (Num 3))"

definition changeEntry :: "int \<Rightarrow> json \<Rightarrow> entry" where
  "changeEntry t j =
     \<lparr>time = t, etype = ''property'', index = Some 0, cid = None, action = ''change'',
      evalue = Some j, event = Undefined, collectionCid = None\<rparr>"

definition scenarioLog :: "entry list" where
  "scenarioLog = [changeEntry 10 (JNum 2), changeEntry 20 (JNum 3)]"

definition replayLog :: "entry list" where
  "replayLog = map (\<lambda>e. e\<lparr>cid := Some 0\<rparr>) scenarioLog"

text \<open>
  A sorted log whose first entry names the property id 5, which nobody registered, and
  whose second entry is a change of the registered property 0.
\<close>

definition unregisteredLog :: "entry list" where
  "unregisteredLog =
     [(changeEntry 10 (JNum 7))\<lparr>cid := Some 5\<rparr>, (changeEntry 12 (JNum 2))\<lparr>cid := Some 0\<rparr>]"

text \<open>
  A log of one trigger entry on the property id 3, which nobody registered.
\<close>

definition triggerLog :: "entry list" where
  "triggerLog =
     [\<lparr>time = 5, etype = ''property'', index = None, cid = Some 3, action = ''trigger'',
       evalue = None, event = Str ''reset'', collectionCid = None\<rparr>]"

text \<open>
  A log whose first change entry has no value field.
\<close>

definition missingValueLog :: "entry list" where
  "missingValueLog =
     [(changeEntry 10 JNull)\<lparr>cid := Some 0, evalue := None\<rparr>,
      (changeEntry 20 (JNum 3))\<lparr>cid := Some 0\<rparr>]"

text \<open>
  A log whose first entry has an action that is none of the six known ones.
\<close>

definition unknownActionLog :: "entry list" where
  "unknownActionLog =
     [(changeEntry 10 (JNum 9))\<lparr>cid := Some 0, action := ''rename''\<rparr>,
      (changeEntry 20 (JNum 3))\<lparr>cid := Some 0\<rparr>]"

text \<open>
  A heap whose only property was given the cid 0.
\<close>

definition zeroCidHeap :: "property list" where
  "zeroCidHeap = [P_initial\<lparr>pcid := Some 0\<rparr>]"

text \<open>
  A parent adapter that carries the field \<open>value\<close> only, and a NumberProperty.
\<close>

definition valueParentTo :: "jsobject \<Rightarrow> jsobject" where
  "valueParentTo p = [''value'' \<mapsto> readField p ''value'']"

definition valueParentFrom :: "jsobject \<Rightarrow> jsobject" where
  "valueParentFrom st = [''value'' \<mapsto> readField st ''value'']"

definition massProperty :: jsobject where
  "massProperty =
     [''value'' \<mapsto> Num 5, ''valueType'' \<mapsto> Str ''Integer'', ''units'' \<mapsto> Str ''kilograms'',
      ''range'' \<mapsto> Obj ''Range'' [(''min'', Num 0), (''max'', Num 10)],
      ''phetioID'' \<mapsto> Str ''mass'']"


section \<open>The replay loop as sequential application\<close>

lemma stepUntil_takeWhile:
  "stepUntil s logArray t i =
     applyEntries s i (takeWhile (\<lambda>e. time e \<le> t) (drop i logArray))"
proof (induction s logArray t i rule: stepUntil.induct)
  case (1 s logArray t i)
  show ?case
  proof (cases "i < length logArray")
    case False
    then show ?thesis by (simp add: stepUntil.simps)
  next
    case True
    then have d: "drop i logArray = logArray ! i # drop (Suc i) logArray"
      by (simp add: Cons_nth_drop_Suc)
    show ?thesis
    proof (cases "time (logArray ! i) \<le> t")
      case False
      with True d show ?thesis by (simp add: stepUntil.simps)
    next
      case le: True
      obtain r s' where ap: "applyEntry s i (logArray ! i) = (r, s')"
        by (cases "applyEntry s i (logArray ! i)")
      show ?thesis
      proof (cases r)
        case (Inl err)
        with ap True le d show ?thesis by (simp add: stepUntil.simps [of s logArray t i])
      next
        case (Inr u)
        with "1.IH" [OF True le ap [symmetric]] ap True le d
        show ?thesis by (simp add: stepUntil.simps [of s logArray t i])
      qed
    qed
  qed
qed

lemma takeWhile_filter_sorted:
  "sorted (map time es) \<Longrightarrow>
   takeWhile (\<lambda>e. time e \<le> t) es = filter (\<lambda>e. time e \<le> t) es"
proof (induction es)
  case Nil
  show ?case by simp
next
  case (Cons e es)
  show ?case
  proof (cases "time e \<le> t")
    case True
    with Cons show ?thesis by simp
  next
    case False
    with Cons.prems have "\<forall>x\<in>set es. \<not> time x \<le> t" by auto
    then have "filter (\<lambda>e. time e \<le> t) es = []" by (simp add: filter_empty_conv)
    with False show ?thesis by simp
  qed
qed

lemma sorted_time_drop: "sorted (map time es) \<Longrightarrow> sorted (map time (drop i es))"
  by (simp add: drop_map [symmetric] sorted_wrt_drop)

lemma applyEntries_index:
  "applyEntries s i es = (Inr k, s') \<Longrightarrow> k = i + length es"
proof (induction es arbitrary: s i)
  case Nil
  then show ?case by simp
next
  case (Cons e es)
  obtain r s1 where ap: "applyEntry s i e = (r, s1)" by (cases "applyEntry s i e")
  show ?case
  proof (cases r)
    case (Inl err)
    with ap Cons.prems show ?thesis by simp
  next
    case (Inr u)
    with ap Cons.prems have "applyEntries s1 (Suc i) es = (Inr k, s')" by simp
    from Cons.IH [OF this] show ?thesis by simp
  qed
qed

lemma stepUntil_stops:
  assumes "stepUntil s logArray t c = (Inr k, s')"
  shows "k = c + length (takeWhile (\<lambda>e. time e \<le> t) (drop c logArray))"
    and "k < length logArray \<Longrightarrow> t < time (logArray ! k)"
proof -
  let ?tw = "takeWhile (\<lambda>e. time e \<le> t) (drop c logArray)"
  from assms have "applyEntries s c ?tw = (Inr k, s')" by (simp add: stepUntil_takeWhile)
  then show k: "k = c + length ?tw" by (rule applyEntries_index)
  assume lt: "k < length logArray"
  with k have "length ?tw < length (drop c logArray)" by simp
  then have "\<not> time (drop c logArray ! length ?tw) \<le> t" by (rule nth_length_takeWhile)
  moreover from k lt have "drop c logArray ! length ?tw = logArray ! k" by simp
  ultimately show "t < time (logArray ! k)" by simp
qed


text \<open>
  The loop body raises exactly on the entries that are not applicable, the error is a
  TypeError, and applying an entry changes neither the registries nor the number of
  objects. So \<open>stepUntil\<close> returns whenever the entries it reaches are applicable.
\<close>

lemma applyEntry_applicable:
  "applicable s e \<Longrightarrow> \<exists>s'. applyEntry s i e = (Inr (), s')"
  by (auto simp: applicable_def applyEntry_def JSON_parse_def split: if_splits option.splits)

lemma applyEntry_not_applicable:
  "\<not> applicable s e \<Longrightarrow> applyEntry s i e = (Inl TypeError, s)"
  by (auto simp: applicable_def applyEntry_def split: if_splits option.splits)

lemma applyEntry_registries:
  assumes "applyEntry s i e = (r, s')"
  shows "properties s' = properties s" and "collections s' = collections s"
    and "length (heap s') = length (heap s)" and "length (colls s') = length (colls s)"
  using assms
  by (auto simp: applyEntry_def call_def split: if_splits option.splits sum.splits)

lemma applicable_cong:
  assumes "properties s' = properties s" and "collections s' = collections s"
    and "length (heap s') = length (heap s)" and "length (colls s') = length (colls s)"
  shows "applicable s' e = applicable s e"
proof -
  from assms have "propertyAt s' (cid e) = propertyAt s (cid e)"
    by (simp add: propertyAt_def split: option.splits)
  moreover from assms have "collectionAt s' (collectionCid e) = collectionAt s (collectionCid e)"
    by (simp add: collectionAt_def split: option.splits)
  ultimately show ?thesis by (simp add: applicable_def)
qed

lemma applyEntries_returns:
  "\<forall>e\<in>set es. applicable s e \<Longrightarrow> \<exists>s'. applyEntries s i es = (Inr (i + length es), s')"
proof (induction es arbitrary: s i)
  case Nil
  show ?case by simp
next
  case (Cons e es)
  from Cons.prems have "applicable s e" by simp
  then obtain s1 where ap: "applyEntry s i e = (Inr (), s1)"
    using applyEntry_applicable by blast
  have "\<forall>x\<in>set es. applicable s1 x"
    using Cons.prems applicable_cong [OF applyEntry_registries [OF ap]] by simp
  from Cons.IH [OF this, of "Suc i"] ap show ?case by simp
qed

lemma stepUntil_returns_when_applicable:
  assumes "\<forall>e\<in>set (drop c logArray). time e \<le> t \<longrightarrow> applicable s e"
  shows "\<exists>k s'. stepUntil s logArray t c = (Inr k, s')"
proof -
  let ?tw = "takeWhile (\<lambda>e. time e \<le> t) (drop c logArray)"
  have "\<forall>e\<in>set ?tw. applicable s e"
    using assms by (auto dest: set_takeWhileD)
  from applyEntries_returns [OF this, of c] show ?thesis
    by (auto simp: stepUntil_takeWhile)
qed


section \<open>The scenario (C1)\<close>

text \<open>
  Claim C1: register \<open>P\<close> (id 0, value 1), set it to 2 at time 10 and to 3 at time 20; the
  log is then the two change entries of \<open>scenarioLog\<close>, and \<open>stepUntil(log, 15, 0)\<close>
  should apply entry 0 and return 1. The recorder does produce that log. Replaying it
  raises a TypeError at entry 0 and leaves \<open>P\<close> as it is (at 1 in the recorder before the
  changes, at 3 in the recorder after them): the recorder writes the id under
  \<open>index\<close>, the replay loop reads \<open>entry.cid\<close>, which is undefined, and assigns to
  \<open>log.properties[undefined].value\<close>.
\<close>

theorem scenario_replay_raises_TypeError:
  "entries recorder3 = scenarioLog
   \<and> stepUntil recorder1 scenarioLog 15 0 = (Inl TypeError, recorder1)
   \<and> pvalue (heap recorder1 ! 0) = Num 1
   \<and> stepUntil recorder3 scenarioLog 15 0 = (Inl TypeError, recorder3)
   \<and> pvalue (heap recorder3 ! 0) = Num 3"
  by code_simp


section \<open>clear (C2)\<close>

text \<open>
  Claim C2, as amended: after \<open>clear()\<close> the registries \<open>properties\<close> and
  \<open>propertySets\<close> are empty, and the entry log is what it was before.
\<close>

theorem clear_resets_properties_and_propertySets:
  "properties (clear s) = [] \<and> propertySets (clear s) = [] \<and> entries (clear s) = entries s"
  by (simp add: clear_def)

text \<open>
  Claim C2, at the recorder of the scenario.
\<close>

theorem clear_resets_properties_and_propertySets_witness:
  "properties recorder3 = [0]
   \<and> properties (clear recorder3) = []
   \<and> propertySets (clear recorder3) = []
   \<and> entries (clear recorder3) = entries recorder3"
proof -
  have a: "properties recorder3 = [0]" by code_simp
  from clear_resets_properties_and_propertySets [of recorder3] a show ?thesis by blast
qed

text \<open>
  Claim C2 as stated fails: after \<open>clear()\<close> on the recorder that holds the two recorded
  entries, the log is still those two entries.
\<close>

theorem clear_keeps_entries_counterexample:
  "entries (clear recorder3) = scenarioLog \<and> entries (clear recorder3) \<noteq> []"
  by code_simp


section \<open>Which entries stepUntil applies (C3)\<close>

text \<open>
  Claim C3, as amended: for a log ordered by time, \<open>stepUntil(log, t, c)\<close> applies, in
  log order, the entries from position \<open>c\<close> on whose time is at most \<open>t\<close>, up to the
  first one whose application raises an error, which ends the call. When it returns, it
  returns \<open>c\<close> plus the number of those entries: the index of the first unapplied
  entry, which is the end of the log or an entry whose time is greater than \<open>t\<close>.
\<close>

theorem stepUntil_applies_entries_in_range:
  assumes "sorted (map time logArray)"
  shows "stepUntil s logArray t c =
           applyEntries s c (filter (\<lambda>e. time e \<le> t) (drop c logArray))
       \<and> (\<forall>k s'. stepUntil s logArray t c = (Inr k, s') \<longrightarrow>
             k = c + length (filter (\<lambda>e. time e \<le> t) (drop c logArray))
             \<and> (k < length logArray \<longrightarrow> t < time (logArray ! k)))"
proof -
  from assms have "sorted (map time (drop c logArray))" by (rule sorted_time_drop)
  then have eq: "takeWhile (\<lambda>e. time e \<le> t) (drop c logArray)
      = filter (\<lambda>e. time e \<le> t) (drop c logArray)"
    by (rule takeWhile_filter_sorted)
  show ?thesis
    using stepUntil_takeWhile [of s logArray t c] stepUntil_stops [of s logArray t c] eq
    by auto
qed

text \<open>
  Claim C3, at the replay of the scenario up to time 15: entry 0 is applied, \<open>P\<close> is 2,
  the cursor returned is 1 and entry 1 is later than 15.
\<close>

theorem stepUntil_applies_entries_in_range_witness:
  "sorted (map time replayLog)
   \<and> stepUntil recorder1 replayLog 15 0 =
       applyEntries recorder1 0 (filter (\<lambda>e. time e \<le> 15) (drop 0 replayLog))
   \<and> fst (stepUntil recorder1 replayLog 15 0) = Inr 1
   \<and> 1 = 0 + length (filter (\<lambda>e. time e \<le> 15) (drop 0 replayLog))
   \<and> 15 < time (replayLog ! 1)
   \<and> pvalue (heap (snd (stepUntil recorder1 replayLog 15 0)) ! 0) = Num 2"
proof -
  have h: "sorted (map time replayLog)" by code_simp
  have c: "fst (stepUntil recorder1 replayLog 15 0) = Inr 1" by code_simp
  then have r: "stepUntil recorder1 replayLog 15 0
      = (Inr 1, snd (stepUntil recorder1 replayLog 15 0))"
    by (simp add: prod_eq_iff)
  have l: "(1::nat) < length replayLog" by code_simp
  have v: "pvalue (heap (snd (stepUntil recorder1 replayLog 15 0)) ! 0) = Num 2" by code_simp
  note t = stepUntil_applies_entries_in_range [OF h, of recorder1 15 0]
  from t have a: "stepUntil recorder1 replayLog 15 0 =
       applyEntries recorder1 0 (filter (\<lambda>e. time e \<le> 15) (drop 0 replayLog))"
    by (rule conjunct1)
  from t r l have b: "1 = 0 + length (filter (\<lambda>e. time e \<le> 15) (drop 0 replayLog))
      \<and> 15 < time (replayLog ! 1)"
    by blast
  from h a b c v show ?thesis by blast
qed

text \<open>
  Claim C3 as stated fails: on a sorted log whose entry 0 names an unregistered property,
  \<open>stepUntil\<close> raises a TypeError at entry 0; it returns no index, and entry 1, whose time
  is at most the target, is not applied.
\<close>

theorem stepUntil_unregistered_property_counterexample:
  "sorted (map time unregisteredLog)
   \<and> time (unregisteredLog ! 1) \<le> 15
   \<and> stepUntil recorder1 unregisteredLog 15 0 = (Inl TypeError, recorder1)"
  by code_simp


section \<open>Replay does not record (C4)\<close>

lemma applyEntry_entries: "entries (snd (applyEntry s i e)) = entries s"
  by (simp add: applyEntry_def call_def split: option.splits sum.splits)

text \<open>
  Claim C4: \<open>stepUntil\<close> leaves the recorder's entry log unchanged, whatever the log it
  replays: the assignment of a change entry calls no listener.
\<close>

theorem stepUntil_entries_unchanged:
  "entries (snd (stepUntil s logArray t i)) = entries s"
proof (induction s logArray t i rule: stepUntil.induct)
  case (1 s logArray t i)
  show ?case
  proof (cases "i < length logArray \<and> time (logArray ! i) \<le> t")
    case False
    then show ?thesis by (auto simp: stepUntil.simps [of s logArray t i])
  next
    case True
    obtain r s' where ap: "applyEntry s i (logArray ! i) = (r, s')"
      by (cases "applyEntry s i (logArray ! i)")
    from applyEntry_entries [of s i "logArray ! i"] ap have e: "entries s' = entries s" by simp
    show ?thesis
    proof (cases r)
      case (Inl err)
      with ap True e show ?thesis by (simp add: stepUntil.simps [of s logArray t i])
    next
      case (Inr u)
      with "1.IH" [OF _ _ ap [symmetric]] ap True e
      show ?thesis by (simp add: stepUntil.simps [of s logArray t i])
    qed
  qed
qed

text \<open>
  Claim C4, at the recorder of the scenario, where recording is enabled and the listener
  of \<open>P\<close> is linked: replaying both changes sets \<open>P\<close> to 3 and appends nothing.
\<close>

theorem stepUntil_entries_unchanged_witness:
  "entries (snd (stepUntil recorder1 replayLog 20 0)) = entries recorder1
   \<and> enabled recorder1
   \<and> observers (heap recorder1 ! 0) = [0]
   \<and> fst (stepUntil recorder1 replayLog 20 0) = Inr 2
   \<and> pvalue (heap (snd (stepUntil recorder1 replayLog 20 0)) ! 0) = Num 3"
proof -
  have a: "entries (snd (stepUntil recorder1 replayLog 20 0)) = entries recorder1"
    by (rule stepUntil_entries_unchanged)
  have b: "enabled recorder1" by code_simp
  have c: "observers (heap recorder1 ! 0) = [0]" by code_simp
  have d: "fst (stepUntil recorder1 replayLog 20 0) = Inr 2" by code_simp
  have e: "pvalue (heap (snd (stepUntil recorder1 replayLog 20 0)) ! 0) = Num 3" by code_simp
  from a b c d e show ?thesis by blast
qed


section \<open>The cursor (C5)\<close>

text \<open>
  Claim C5, as amended: whenever \<open>stepUntil(log, t, c)\<close> returns a cursor \<open>k\<close>, then
  \<open>c \<le> k\<close>, and calling it again with the same target time from \<open>k\<close> returns \<open>k\<close> and
  changes nothing.
\<close>

theorem stepUntil_cursor_monotone_idempotent:
  assumes "stepUntil s logArray t c = (Inr k, s')"
  shows "c \<le> k \<and> stepUntil s' logArray t k = (Inr k, s')"
proof
  from stepUntil_stops(1) [OF assms] show "c \<le> k" by simp
  show "stepUntil s' logArray t k = (Inr k, s')"
  proof (cases "k < length logArray")
    case True
    from stepUntil_stops(2) [OF assms True] show ?thesis
      by (simp add: stepUntil.simps [of s' logArray t k])
  next
    case False
    then show ?thesis by (simp add: stepUntil.simps [of s' logArray t k])
  qed
qed

text \<open>
  Claim C5, at the replay of the scenario up to time 15.
\<close>

theorem stepUntil_cursor_monotone_idempotent_witness:
  "fst (stepUntil recorder1 replayLog 15 0) = Inr 1
   \<and> (0::nat) \<le> 1
   \<and> stepUntil (snd (stepUntil recorder1 replayLog 15 0)) replayLog 15 1
       = (Inr 1, snd (stepUntil recorder1 replayLog 15 0))"
proof -
  have c: "fst (stepUntil recorder1 replayLog 15 0) = Inr 1" by code_simp
  then have r: "stepUntil recorder1 replayLog 15 0
      = (Inr 1, snd (stepUntil recorder1 replayLog 15 0))"
    by (simp add: prod_eq_iff)
  from stepUntil_cursor_monotone_idempotent [OF r] c show ?thesis by blast
qed

text \<open>
  Claim C5 as stated fails: on a log whose trigger entry names an unregistered property,
  \<open>stepUntil\<close> raises a TypeError and returns no cursor.
\<close>

theorem stepUntil_returns_no_cursor_counterexample:
  "fst (stepUntil recorder1 triggerLog 5 0) = Inl TypeError"
  by code_simp


section \<open>The JSON hooks (C6, C10)\<close>

text \<open>
  Scalars and strings come back from the round trip as they went in.
\<close>

lemma roundTrip_scalar:
  "roundTrip s Null = Inr Null"
  "roundTrip s (Bool b) = Inr (Bool b)"
  "roundTrip s (Num n) = Inr (Num n)"
  "roundTrip s (Str str) = Inr (Str str)"
  by (simp_all add: roundTrip_def JSON_stringify_def JSON_parse_def replacer_def reviver_def)

text \<open>
  A registered property whose cid is its registry id, and not 0, comes back as the live
  property itself.
\<close>

lemma roundTrip_registered_nonzero_cid:
  assumes "a < length (heap s)" and "pcid (heap s ! a) = Some i" and "0 < i"
    and "i < length (properties s)" and "properties s ! i = a"
  shows "roundTrip s (PropRef a) = Inr (PropRef a)"
  using assms
  by (simp add: roundTrip_def JSON_stringify_def JSON_parse_def replacer_def reviver_def
      propField_def subscript_def)

text \<open>
  Claim C6: the round trip of a registered property should give the live property itself.
  For the property registered first (id 0) it gives a plain copy of its fields, both when
  the property has no cid (\<open>registerProperty\<close> stores none) and when its cid is its id,
  0, which is falsy.
\<close>

theorem roundTrip_first_property_is_copy:
  "roundTrip recorder1 (PropRef 0) = Inr (Obj ''Object'' [(''value'', Num 1)])
   \<and> roundTrip (registerProperty (Log [P_initial\<lparr>pcid := Some 0\<rparr>] [] True) 0) (PropRef 0)
       = Inr (Obj ''Object'' [(''cid'', Num 0), (''value'', Num 1)])"
  by code_simp

text \<open>
  Claim C10: for an object whose \<open>cid\<close> is 0 the replacer does not build the typed
  reference: it returns what it returns for an object without a cid, the Vector2 encoding
  for a \<open>Vector2\<close> and the object itself otherwise.
\<close>

theorem replacer_cid_zero_not_reference:
  assumes "getField h v ''cid'' = Num 0"
  shows "replacer h key v =
     (if constructorName v = ''Vector2'' then
        Obj ''Object'' [(''x'', getField h v ''x''), (''y'', getField h v ''y''),
                        (''jsonClass'', Str ''Vector2'')]
      else v)"
  using assms by (cases v) (simp_all add: replacer_def)

text \<open>
  Claim C10, at a live property whose cid is 0: the replacer returns the property itself,
  and \<open>JSON.stringify\<close> writes the property field by field.
\<close>

theorem replacer_cid_zero_not_reference_witness:
  "getField zeroCidHeap (PropRef 0) ''cid'' = Num 0
   \<and> replacer zeroCidHeap [] (PropRef 0) = PropRef 0
   \<and> stringify zeroCidHeap [] [] (PropRef 0)
       = Inr (Some (JObj [(''cid'', JNum 0), (''value'', JNum 1)]))"
proof -
  have h: "getField zeroCidHeap (PropRef 0) ''cid'' = Num 0" by code_simp
  have c: "constructorName (PropRef 0) \<noteq> ''Vector2''" by simp
  from replacer_cid_zero_not_reference [OF h, of "[]"] c
  have r: "replacer zeroCidHeap [] (PropRef 0) = PropRef 0" by simp
  have j: "stringify zeroCidHeap [] [] (PropRef 0)
       = Inr (Some (JObj [(''cid'', JNum 0), (''value'', JNum 1)]))"
    by code_simp
  from h r j show ?thesis by blast
qed


section \<open>Entries that are skipped (C7, C8)\<close>

text \<open>
  Claim C7: a change entry without a value, whose time has come, is not applied: it raises
  nothing, changes only the console, which receives the diagnostic, and the loop goes on
  from the next entry.
\<close>

theorem stepUntil_skips_change_without_value:
  assumes "c < length logArray" and "time (logArray ! c) \<le> t"
    and "action (logArray ! c) = ''change''" and "evalue (logArray ! c) = None"
  shows "applyEntry s c (logArray ! c) =
           (Inr (), s\<lparr>console := console s @ [MissingValue c (logArray ! c)]\<rparr>)
       \<and> stepUntil s logArray t c =
           stepUntil (s\<lparr>console := console s @ [MissingValue c (logArray ! c)]\<rparr>)
             logArray t (Suc c)"
  using assms by (simp add: stepUntil.simps [of s logArray t c] applyEntry_def)

text \<open>
  Claim C7, at a log whose entry 0 has no value: the replay returns 2 and entry 1 has set
  \<open>P\<close> to 3.
\<close>

theorem stepUntil_skips_change_without_value_witness:
  "0 < length missingValueLog
   \<and> time (missingValueLog ! 0) \<le> 20
   \<and> action (missingValueLog ! 0) = ''change''
   \<and> evalue (missingValueLog ! 0) = None
   \<and> applyEntry recorder1 0 (missingValueLog ! 0) =
       (Inr (), recorder1\<lparr>console := console recorder1 @ [MissingValue 0 (missingValueLog ! 0)]\<rparr>)
   \<and> stepUntil recorder1 missingValueLog 20 0 =
       stepUntil (recorder1\<lparr>console := console recorder1 @ [MissingValue 0 (missingValueLog ! 0)]\<rparr>)
         missingValueLog 20 (Suc 0)
   \<and> fst (stepUntil recorder1 missingValueLog 20 0) = Inr 2
   \<and> pvalue (heap (snd (stepUntil recorder1 missingValueLog 20 0)) ! 0) = Num 3"
proof -
  have h1: "0 < length missingValueLog" by code_simp
  have h2: "time (missingValueLog ! 0) \<le> 20" by code_simp
  have h3: "action (missingValueLog ! 0) = ''change''" by code_simp
  have h4: "evalue (missingValueLog ! 0) = None" by code_simp
  have d: "fst (stepUntil recorder1 missingValueLog 20 0) = Inr 2" by code_simp
  have e: "pvalue (heap (snd (stepUntil recorder1 missingValueLog 20 0)) ! 0) = Num 3"
    by code_simp
  from stepUntil_skips_change_without_value [OF h1 h2 h3 h4, of recorder1] h1 h2 h3 h4 d e
  show ?thesis by blast
qed

text \<open>
  Claim C8: an entry whose action is none of change, trigger, add, remove, reset and sort,
  and whose time has come, raises nothing and changes nothing, and the loop goes on from
  the next entry.
\<close>

theorem stepUntil_ignores_unknown_action:
  assumes "c < length logArray" and "time (logArray ! c) \<le> t"
    and "action (logArray ! c) \<notin> {''change'', ''trigger'', ''add'', ''remove'', ''reset'', ''sort''}"
  shows "applyEntry s c (logArray ! c) = (Inr (), s)
       \<and> stepUntil s logArray t c = stepUntil s logArray t (Suc c)"
  using assms by (simp add: stepUntil.simps [of s logArray t c] applyEntry_def)

text \<open>
  Claim C8, at a log whose entry 0 has the action \<open>rename\<close>: the replay returns 2 and
  entry 1 has set \<open>P\<close> to 3.
\<close>

theorem stepUntil_ignores_unknown_action_witness:
  "0 < length unknownActionLog
   \<and> time (unknownActionLog ! 0) \<le> 20
   \<and> action (unknownActionLog ! 0)
       \<notin> {''change'', ''trigger'', ''add'', ''remove'', ''reset'', ''sort''}
   \<and> applyEntry recorder1 0 (unknownActionLog ! 0) = (Inr (), recorder1)
   \<and> stepUntil recorder1 unknownActionLog 20 0 = stepUntil recorder1 unknownActionLog 20 (Suc 0)
   \<and> fst (stepUntil recorder1 unknownActionLog 20 0) = Inr 2
   \<and> pvalue (heap (snd (stepUntil recorder1 unknownActionLog 20 0)) ! 0) = Num 3"
proof -
  have h1: "0 < length unknownActionLog" by code_simp
  have h2: "time (unknownActionLog ! 0) \<le> 20" by code_simp
  have h3: "action (unknownActionLog ! 0)
       \<notin> {''change'', ''trigger'', ''add'', ''remove'', ''reset'', ''sort''}"
    by code_simp
  have d: "fst (stepUntil recorder1 unknownActionLog 20 0) = Inr 2" by code_simp
  have e: "pvalue (heap (snd (stepUntil recorder1 unknownActionLog 20 0)) ! 0) = Num 3"
    by code_simp
  from stepUntil_ignores_unknown_action [OF h1 h2 h3, of recorder1] h1 h2 h3 d e
  show ?thesis by blast
qed


section \<open>NumberPropertyIO (C9)\<close>

text \<open>
  Claim C9: \<open>toStateObject\<close> is the parent's state object with the fields \<open>valueType\<close>,
  \<open>units\<close> and \<open>range\<close> of the property written over it, \<open>fromStateObject\<close> the
  parent's result with those fields of the state object written over it; every other
  field is the parent's; and decoding an encoded property gives back the three fields of
  the property.
\<close>

theorem NumberPropertyIO_copies_three_fields:
  "toStateObject parentTo p =
     (parentTo p)(''valueType'' \<mapsto> readField p ''valueType'',
                  ''units'' \<mapsto> readField p ''units'',
                  ''range'' \<mapsto> readField p ''range'')
   \<and> fromStateObject parentFrom st =
     (parentFrom st)(''valueType'' \<mapsto> readField st ''valueType'',
                    ''units'' \<mapsto> readField st ''units'',
                    ''range'' \<mapsto> readField st ''range'')
   \<and> readField (toStateObject parentTo p) k =
       (if k = ''valueType'' \<or> k = ''units'' \<or> k = ''range'' then readField p k
        else readField (parentTo p) k)
   \<and> readField (fromStateObject parentFrom st) k =
       (if k = ''valueType'' \<or> k = ''units'' \<or> k = ''range'' then readField st k
        else readField (parentFrom st) k)
   \<and> readField (fromStateObject parentFrom (toStateObject parentTo p)) ''valueType''
       = readField p ''valueType''
   \<and> readField (fromStateObject parentFrom (toStateObject parentTo p)) ''units''
       = readField p ''units''
   \<and> readField (fromStateObject parentFrom (toStateObject parentTo p)) ''range''
       = readField p ''range''"
  by (simp add: toStateObject_def fromStateObject_def readField_def Let_def)

text \<open>
  Claim C9, at a parent adapter that carries the field \<open>value\<close> only.
\<close>

theorem NumberPropertyIO_copies_three_fields_witness:
  "readField (toStateObject valueParentTo massProperty) ''units'' = Str ''kilograms''
   \<and> readField (toStateObject valueParentTo massProperty) ''value'' = Num 5
   \<and> readField (toStateObject valueParentTo massProperty) ''phetioID'' = Undefined
   \<and> readField (fromStateObject valueParentFrom (toStateObject valueParentTo massProperty)) ''range''
       = Obj ''Range'' [(''min'', Num 0), (''max'', Num 10)]"
proof -
  have a: "readField massProperty ''units'' = Str ''kilograms''"
    by (simp add: massProperty_def readField_def)
  have b: "readField (valueParentTo massProperty) ''value'' = Num 5"
    by (simp add: massProperty_def valueParentTo_def readField_def)
  have c: "readField (valueParentTo massProperty) ''phetioID'' = Undefined"
    by (simp add: massProperty_def valueParentTo_def readField_def)
  have d: "readField massProperty ''range'' = Obj ''Range'' [(''min'', Num 0), (''max'', Num 10)]"
    by (simp add: massProperty_def readField_def)
  have "readField (toStateObject valueParentTo massProperty) ''units'' =
       (if ''units'' = ''valueType'' \<or> ''units'' = ''units'' \<or> ''units'' = ''range''
        then readField massProperty ''units''
        else readField (valueParentTo massProperty) ''units'')"
    using NumberPropertyIO_copies_three_fields
      [where parentTo = valueParentTo and p = massProperty and k = "''units''"]
    by blast
  with a have 1: "readField (toStateObject valueParentTo massProperty) ''units'' = Str ''kilograms''"
    by simp
  have "readField (toStateObject valueParentTo massProperty) ''value'' =
       (if ''value'' = ''valueType'' \<or> ''value'' = ''units'' \<or> ''value'' = ''range''
        then readField massProperty ''value''
        else readField (valueParentTo massProperty) ''value'')"
    using NumberPropertyIO_copies_three_fields
      [where parentTo = valueParentTo and p = massProperty and k = "''value''"]
    by blast
  with b have 2: "readField (toStateObject valueParentTo massProperty) ''value'' = Num 5"
    by simp
  have "readField (toStateObject valueParentTo massProperty) ''phetioID'' =
       (if ''phetioID'' = ''valueType'' \<or> ''phetioID'' = ''units'' \<or> ''phetioID'' = ''range''
        then readField massProperty ''phetioID''
        else readField (valueParentTo massProperty) ''phetioID'')"
    using NumberPropertyIO_copies_three_fields
      [where parentTo = valueParentTo and p = massProperty and k = "''phetioID''"]
    by blast
  with c have 3: "readField (toStateObject valueParentTo massProperty) ''phetioID'' = Undefined"
    by simp
  have "readField (fromStateObject valueParentFrom (toStateObject valueParentTo massProperty)) ''range''
       = readField massProperty ''range''"
    using NumberPropertyIO_copies_three_fields
      [where parentTo = valueParentTo and p = massProperty and parentFrom = valueParentFrom]
    by blast
  with d have 4:
    "readField (fromStateObject valueParentFrom (toStateObject valueParentTo massProperty)) ''range''
       = Obj ''Range'' [(''min'', Num 0), (''max'', Num 10)]"
    by simp
  from 1 2 3 4 show ?thesis by blast
qed

end
